theory Spec2Isabelle
  imports Complex_Main
begin

section \<open>Errors and Python containers\<close>

text \<open>
  Every exception that the modelled part of \<^verbatim>\<open>cornac/data/text.py\<close> can raise is a
  constructor of \<open>error\<close>; a function that can raise returns \<open>error + 'a\<close>.
  Python strings are modelled as \<open>string\<close>, Python integers as \<open>int\<close>, and positions
  produced by \<^verbatim>\<open>enumerate\<close> or \<^verbatim>\<open>len\<close> as \<open>nat\<close>.
\<close>

datatype error =
    IndexError             \<comment> \<open>list index out of range\<close>
  | KeyError               \<comment> \<open>missing dictionary key\<close>
  | AttributeError         \<comment> \<open>attribute access on \<^verbatim>\<open>None\<close>\<close>
  | NegativeFreqError      \<comment> \<open>ValueError: negative value for max_doc_freq or min_freq\<close>
  | MaxFeaturesError       \<comment> \<open>ValueError: max_features neither a positive integer nor None\<close>
  | NoTermsRemainError     \<comment> \<open>ValueError: After pruning, no terms remain\<close>
  | SequencesRequiredError \<comment> \<open>ValueError: self.sequences is required but None\<close>
  | EmptySeparatorError    \<comment> \<open>ValueError of \<^verbatim>\<open>str.split\<close>: empty separator\<close>
  | BincountError          \<comment> \<open>ValueError of \<^verbatim>\<open>np.bincount\<close>: negative element\<close>
  | EmptyMaxError          \<comment> \<open>ValueError of \<^verbatim>\<open>max\<close>: empty sequence\<close>
  | NegativeDimensionError \<comment> \<open>ValueError of \<^verbatim>\<open>np.zeros\<close> or of a matrix shape: negative dimension\<close>
  | NotImplementedError    \<comment> \<open>raised by the methods of the abstract \<^verbatim>\<open>Tokenizer\<close>\<close>

text \<open>A list comprehension whose element expression may raise: the first error wins.\<close>

fun map_err :: "('a \<Rightarrow> error + 'b) \<Rightarrow> 'a list \<Rightarrow> error + 'b list" where
  "map_err f [] = Inr []"
| "map_err f (x # xs) =
     (case f x of
        Inl e \<Rightarrow> Inl e
      | Inr y \<Rightarrow> (case map_err f xs of Inl e \<Rightarrow> Inl e | Inr ys \<Rightarrow> Inr (y # ys)))"

text \<open>
  \<^verbatim>\<open>xs[i]\<close> on a Python list: an index in \<open>[-len, -1]\<close> counts from the end, anything
  outside \<open>[-len, len)\<close> raises IndexError.
\<close>

definition list_getitem :: "'a list \<Rightarrow> int \<Rightarrow> error + 'a" where
  "list_getitem xs i =
     (if 0 \<le> i \<and> i < int (length xs) then Inr (xs ! nat i)
      else if i < 0 \<and> - int (length xs) \<le> i then Inr (xs ! nat (int (length xs) + i))
      else Inl IndexError)"

text \<open>\<^verbatim>\<open>sep.join(parts)\<close>.\<close>

fun str_join :: "string \<Rightarrow> string list \<Rightarrow> string" where
  "str_join sep [] = []"
| "str_join sep [p] = p"
| "str_join sep (p # q # ps) = p @ sep @ str_join sep (q # ps)"

section \<open>Reserved tokens\<close>

definition PAD :: string where "PAD = ''<PAD>''"
definition UNK :: string where "UNK = ''<UNK>''"
definition BOS :: string where "BOS = ''<BOS>''"
definition EOS :: string where "EOS = ''<EOS>''"

definition SPECIAL_TOKENS :: "string list" where
  "SPECIAL_TOKENS = [PAD, UNK, BOS, EOS]"

section \<open>Vocabulary\<close>

text \<open>
  A \<^verbatim>\<open>Vocabulary\<close> object has the two fields \<^verbatim>\<open>idx2tok\<close> (a list) and
  \<^verbatim>\<open>tok2idx\<close> (a dictionary). The dictionary is a \<^verbatim>\<open>defaultdict(int)\<close>, but the
  source only reads it through \<^verbatim>\<open>get\<close>, through \<^verbatim>\<open>keys()\<close> and through a
  subscript guarded by a membership test, so its default factory never runs.
\<close>

record Vocabulary =
  idx2tok :: "string list"
  tok2idx :: "string \<rightharpoonup> nat"

text \<open>
  \<^verbatim>\<open>{tok: idx for idx, tok in enumerate(self.idx2tok)}\<close>: entries are written in list
  order, so a token that occurs twice keeps its last position.
\<close>

definition build_tok2idx :: "Vocabulary \<Rightarrow> Vocabulary" where
  "build_tok2idx v =
     v\<lparr>tok2idx := fold (\<lambda>(idx, tok) d. d(tok \<mapsto> idx)) (enumerate 0 (idx2tok v)) Map.empty\<rparr>"

text \<open>
  \<^verbatim>\<open>_add_special_tokens\<close>, as a function on the contents of the list:
  \<^verbatim>\<open>list.remove\<close> deletes the first occurrence only, \<^verbatim>\<open>insert(0, tok)\<close> prepends.
\<close>

definition add_special_step :: "string \<Rightarrow> string list \<Rightarrow> string list" where
  "add_special_step tok l = tok # (if tok \<in> set l then remove1 tok l else l)"

definition add_special_tokens :: "string list \<Rightarrow> string list" where
  "add_special_tokens l = fold add_special_step (rev SPECIAL_TOKENS) l"

definition Vocabulary_init :: "string list \<Rightarrow> Vocabulary" where
  "Vocabulary_init l = build_tok2idx \<lparr>idx2tok = add_special_tokens l, tok2idx = Map.empty\<rparr>"

definition vocab_size :: "Vocabulary \<Rightarrow> nat" where
  "vocab_size v = length (idx2tok v)"

text \<open>\<^verbatim>\<open>to_idx\<close>: \<^verbatim>\<open>self.tok2idx.get(tok, 1)\<close> for every token.\<close>

definition to_idx :: "Vocabulary \<Rightarrow> string list \<Rightarrow> int list" where
  "to_idx v tokens = map (\<lambda>tok. case tok2idx v tok of Some i \<Rightarrow> int i | None \<Rightarrow> 1) tokens"

text \<open>
  \<^verbatim>\<open>to_text\<close> returns a string when \<^verbatim>\<open>sep\<close> is not \<^verbatim>\<open>None\<close> and the list of
  tokens otherwise.
\<close>

datatype decoded = Joined string | Tokens "string list"

definition to_text :: "Vocabulary \<Rightarrow> int list \<Rightarrow> string option \<Rightarrow> error + decoded" where
  "to_text v indices sep =
     (case map_err (list_getitem (idx2tok v)) indices of
        Inl e \<Rightarrow> Inl e
      | Inr toks \<Rightarrow>
          Inr (case sep of Some s \<Rightarrow> Joined (str_join s toks) | None \<Rightarrow> Tokens toks))"

text \<open>
  \<^verbatim>\<open>Counter(tokens)\<close> as the list of its items in first-seen order, and
  \<^verbatim>\<open>most_common(n)\<close>: a stable sort by descending count, cut to \<open>n\<close> items when
  \<open>n\<close> is given.
\<close>

fun counter_incr :: "'a \<Rightarrow> ('a \<times> nat) list \<Rightarrow> ('a \<times> nat) list" where
  "counter_incr x [] = [(x, 1)]"
| "counter_incr x ((y, c) # ys) =
     (if x = y then (y, c + 1) # ys else (y, c) # counter_incr x ys)"

definition Counter :: "'a list \<Rightarrow> ('a \<times> nat) list" where
  "Counter xs = fold counter_incr xs []"

definition most_common :: "nat option \<Rightarrow> ('a \<times> nat) list \<Rightarrow> ('a \<times> nat) list" where
  "most_common n items =
     (let ordered = sort_key (\<lambda>(tok, cnt). - int cnt) items
      in case n of None \<Rightarrow> ordered | Some k \<Rightarrow> take k ordered)"

definition from_tokens :: "string list \<Rightarrow> nat option \<Rightarrow> int \<Rightarrow> Vocabulary" where
  "from_tokens tokens max_vocab min_freq =
     Vocabulary_init
       (map fst (filter (\<lambda>(tok, cnt). min_freq \<le> int cnt)
                        (most_common max_vocab (Counter tokens))))"

definition from_sequences :: "string list list \<Rightarrow> nat option \<Rightarrow> int \<Rightarrow> Vocabulary" where
  "from_sequences sequences max_vocab min_freq =
     from_tokens (concat sequences) max_vocab min_freq"

subsection \<open>The constructor on a shared list object\<close>

text \<open>
  The constructor receives a reference to the caller's list and works on that object.
  A store maps addresses to list contents; the object-level constructor performs the
  \<^verbatim>\<open>remove\<close> and \<^verbatim>\<open>insert\<close> calls as updates of the store at the address it was
  given, and the new vocabulary holds that address.
\<close>

type_synonym addr = nat
type_synonym store = "addr \<rightharpoonup> string list"

record Vocabulary_obj =
  idx2tok_ref :: addr
  tok2idx_obj :: "string \<rightharpoonup> nat"

definition list_remove :: "store \<Rightarrow> addr \<Rightarrow> string \<Rightarrow> store" where
  "list_remove h a tok = (case h a of None \<Rightarrow> h | Some l \<Rightarrow> h(a \<mapsto> remove1 tok l))"

definition list_insert0 :: "store \<Rightarrow> addr \<Rightarrow> string \<Rightarrow> store" where
  "list_insert0 h a tok = (case h a of None \<Rightarrow> h | Some l \<Rightarrow> h(a \<mapsto> tok # l))"

definition list_contains :: "store \<Rightarrow> addr \<Rightarrow> string \<Rightarrow> bool" where
  "list_contains h a tok = (case h a of None \<Rightarrow> False | Some l \<Rightarrow> tok \<in> set l)"

definition add_special_step_obj :: "addr \<Rightarrow> string \<Rightarrow> store \<Rightarrow> store" where
  "add_special_step_obj a tok h =
     list_insert0 (if list_contains h a tok then list_remove h a tok else h) a tok"

definition add_special_tokens_obj :: "store \<Rightarrow> addr \<Rightarrow> store \<times> addr" where
  "add_special_tokens_obj h a = (fold (add_special_step_obj a) (rev SPECIAL_TOKENS) h, a)"

definition Vocabulary_init_obj :: "store \<Rightarrow> addr \<Rightarrow> store \<times> Vocabulary_obj" where
  "Vocabulary_init_obj h a =
     (case add_special_tokens_obj h a of
        (h', r) \<Rightarrow>
          (h', \<lparr>idx2tok_ref = r,
                tok2idx_obj = fold (\<lambda>(idx, tok) d. d(tok \<mapsto> idx))
                                   (enumerate 0 (case h' r of Some l \<Rightarrow> l | None \<Rightarrow> []))
                                   Map.empty\<rparr>))"

section \<open>Tokenizer\<close>

text \<open>
  Characters are bytes, so the text rules are modelled on ASCII text.
  \<^verbatim>\<open>t.lower()\<close> maps \<open>A\<close>..\<open>Z\<close> to \<open>a\<close>..\<open>z\<close>.
\<close>

definition lower_char :: "char \<Rightarrow> char" where
  "lower_char c =
     (if 65 \<le> (of_char c :: nat) \<and> (of_char c :: nat) \<le> 90
      then char_of ((of_char c :: nat) + 32) else c)"

definition str_lower :: "string \<Rightarrow> string" where
  "str_lower t = map lower_char t"

text \<open>
  \<^verbatim>\<open>re.sub('<([^>]+)>', '', t)\<close>: scanning from the left, a \<open><\<close> followed by a
  non-empty run of characters other than \<open>>\<close> and then a \<open>>\<close> is deleted.
\<close>

function rm_tags :: "string \<Rightarrow> string" where
  "rm_tags [] = []"
| "rm_tags (c # cs) =
     (if c = CHR ''<'' \<and> takeWhile (\<lambda>x. x \<noteq> CHR ''>'') cs \<noteq> []
          \<and> dropWhile (\<lambda>x. x \<noteq> CHR ''>'') cs \<noteq> []
      then rm_tags (tl (dropWhile (\<lambda>x. x \<noteq> CHR ''>'') cs))
      else c # rm_tags cs)"
  by pat_completeness auto
termination
  by (relation "measure length")
     (auto simp: less_Suc_eq_le intro: le_trans [OF diff_le_self length_dropWhile_le])

text \<open>\<^verbatim>\<open>re.sub('[0-9]+', ' ', t)\<close>: every maximal run of digits becomes one space.\<close>

definition is_digit :: "char \<Rightarrow> bool" where
  "is_digit c \<longleftrightarrow> 48 \<le> (of_char c :: nat) \<and> (of_char c :: nat) \<le> 57"

function rm_numeric :: "string \<Rightarrow> string" where
  "rm_numeric [] = []"
| "rm_numeric (c # cs) =
     (if is_digit c then CHR '' '' # rm_numeric (dropWhile is_digit cs)
      else c # rm_numeric cs)"
  by pat_completeness auto
termination
  by (relation "measure length") (auto simp: less_Suc_eq_le length_dropWhile_le)

text \<open>
  \<^verbatim>\<open>string.punctuation\<close> is the 32 ASCII characters with codes 33..47, 58..64, 91..96
  and 123..126; \<^verbatim>\<open>rm_punctuation\<close> deletes them.
\<close>

definition is_punctuation :: "char \<Rightarrow> bool" where
  "is_punctuation c \<longleftrightarrow>
     (let n = (of_char c :: nat)
      in (33 \<le> n \<and> n \<le> 47) \<or> (58 \<le> n \<and> n \<le> 64) \<or> (91 \<le> n \<and> n \<le> 96)
         \<or> (123 \<le> n \<and> n \<le> 126))"

definition rm_punctuation :: "string \<Rightarrow> string" where
  "rm_punctuation t = filter (\<lambda>c. \<not> is_punctuation c) t"

text \<open>\<^verbatim>\<open>re.sub(' {2,}', ' ', t)\<close>: a run of two or more spaces becomes one space.\<close>

function rm_dup_spaces :: "string \<Rightarrow> string" where
  "rm_dup_spaces [] = []"
| "rm_dup_spaces (c # cs) =
     (if c = CHR '' '' \<and> take 1 cs = '' ''
      then CHR '' '' # rm_dup_spaces (dropWhile (\<lambda>x. x = CHR '' '') cs)
      else c # rm_dup_spaces cs)"
  by pat_completeness auto
termination
  by (relation "measure length") (auto simp: less_Suc_eq_le length_dropWhile_le)

definition DEFAULT_PRE_RULES :: "(string \<Rightarrow> string) list" where
  "DEFAULT_PRE_RULES = [str_lower, rm_tags, rm_numeric, rm_punctuation, rm_dup_spaces]"

text \<open>
  \<^verbatim>\<open>t.split(sep)\<close> for a string separator: the text is cut at every occurrence of
  \<open>sep\<close>, found from the left; an empty separator raises ValueError.
\<close>

function split_pieces :: "string \<Rightarrow> string \<Rightarrow> string \<Rightarrow> string list" where
  "split_pieces sep cur [] = [cur]"
| "split_pieces sep cur (c # cs) =
     (if sep \<noteq> [] \<and> take (length sep) (c # cs) = sep
      then cur # split_pieces sep [] (drop (length sep) (c # cs))
      else split_pieces sep (cur @ [c]) cs)"
  by pat_completeness auto
termination
  by (relation "measure (\<lambda>(sep, cur, rest). length rest)") auto

definition str_split :: "string \<Rightarrow> string \<Rightarrow> error + string list" where
  "str_split t sep = (if sep = [] then Inl EmptySeparatorError else Inr (split_pieces sep [] t))"

text \<open>
  The two tokenizer classes of the source: the abstract \<^verbatim>\<open>Tokenizer\<close>, whose methods
  raise NotImplementedError, and \<^verbatim>\<open>BaseTokenizer\<close> with its fields \<^verbatim>\<open>sep\<close> and
  \<^verbatim>\<open>pre_rules\<close>.
\<close>

datatype Tokenizer = Tokenizer | BaseTokenizer string "(string \<Rightarrow> string) list"

definition BaseTokenizer_init :: "string \<Rightarrow> (string \<Rightarrow> string) list option \<Rightarrow> Tokenizer" where
  "BaseTokenizer_init sep pre_rules =
     BaseTokenizer sep (case pre_rules of None \<Rightarrow> DEFAULT_PRE_RULES | Some rs \<Rightarrow> rs)"

fun tokenize :: "Tokenizer \<Rightarrow> string \<Rightarrow> error + string list" where
  "tokenize Tokenizer t = Inl NotImplementedError"
| "tokenize (BaseTokenizer sep pre_rules) t = str_split (fold (\<lambda>rule t. rule t) pre_rules t) sep"

fun batch_tokenize :: "Tokenizer \<Rightarrow> string list \<Rightarrow> error + string list list" where
  "batch_tokenize Tokenizer texts = Inl NotImplementedError"
| "batch_tokenize (BaseTokenizer sep pre_rules) texts =
     map_err (tokenize (BaseTokenizer sep pre_rules)) texts"

section \<open>Sparse count matrices\<close>

text \<open>
  The source assembles a \<^verbatim>\<open>scipy.sparse.csr_matrix\<close> from the flat arrays
  \<^verbatim>\<open>data\<close>, \<^verbatim>\<open>indices\<close> and \<^verbatim>\<open>indptr\<close>. The model keeps the same content row by
  row: row \<open>i\<close> is the list of (column index, value) pairs stored between
  \<^verbatim>\<open>indptr[i]\<close> and \<^verbatim>\<open>indptr[i+1]\<close>. Column indices are integers, because the
  source computes them by a subtraction that can go below zero.
\<close>

record csr_matrix =
  n_rows :: nat
  n_cols :: nat
  rows :: "(int \<times> int) list list"

text \<open>\<^verbatim>\<open>X.sort_indices()\<close>: every row is ordered by column index.\<close>

definition sort_indices :: "csr_matrix \<Rightarrow> csr_matrix" where
  "sort_indices X = X\<lparr>rows := map (sort_key fst) (rows X)\<rparr>"

text \<open>\<^verbatim>\<open>X.data.fill(1)\<close>.\<close>

definition data_fill :: "int \<Rightarrow> csr_matrix \<Rightarrow> csr_matrix" where
  "data_fill c X = X\<lparr>rows := map (map (\<lambda>(j, x). (j, c))) (rows X)\<rparr>"

text \<open>
  \<^verbatim>\<open>np.bincount(X.indices, minlength=X.shape[1])\<close>: a negative index raises ValueError;
  the result has an entry for every column up to the largest index seen.
\<close>

definition bincount :: "int list \<Rightarrow> nat \<Rightarrow> error + nat list" where
  "bincount xs minlength =
     (if list_ex (\<lambda>x. x < 0) xs then Inl BincountError
      else Inr (map (\<lambda>j. count_list xs (int j))
                    [0 ..< max minlength (nat (fold max xs (- 1) + 1))]))"

definition X_indices :: "csr_matrix \<Rightarrow> int list" where
  "X_indices X = concat (map (map fst) (rows X))"

text \<open>
  \<^verbatim>\<open>X[:, kept_indices]\<close> for an increasing list of column numbers: column
  \<open>kept_indices[j]\<close> of \<open>X\<close> becomes column \<open>j\<close>, every other column is dropped.
\<close>

definition select_columns :: "csr_matrix \<Rightarrow> nat list \<Rightarrow> csr_matrix" where
  "select_columns X kept_indices =
     X\<lparr>n_cols := length kept_indices,
       rows := map (\<lambda>row. List.map_filter
                      (\<lambda>(j, x). map_option (\<lambda>k. (int k, x))
                                  (map_of (zip (map int kept_indices) [0 ..< length kept_indices]) j))
                      row)
                   (rows X)\<rparr>"

text \<open>
  \<^verbatim>\<open>X.A\<close>, the dense array, for a matrix whose column indices all lie inside its shape.
\<close>

definition to_dense :: "csr_matrix \<Rightarrow> int list list" where
  "to_dense X =
     map (\<lambda>row. map (\<lambda>j. sum_list (map snd (filter (\<lambda>(k, x). k = int j) row))) [0 ..< n_cols X])
         (rows X)"

section \<open>CountVectorizer\<close>

text \<open>
  \<^verbatim>\<open>max_doc_freq\<close> is an integer (an absolute count) or a float (a proportion of the
  documents); a float is modelled by a real number. The product
  \<^verbatim>\<open>max_doc_freq * n_docs\<close> is therefore exact here, where Python rounds it to a
  binary64 number (\<^verbatim>\<open>0.58 * 50\<close> is \<^verbatim>\<open>28.999999999999996\<close>); the two agree when
  \<^verbatim>\<open>max_doc_freq\<close> is an integer or the float \<^verbatim>\<open>1.0\<close>, the only values used in the
  properties below.
\<close>

datatype number = IntNum int | FloatNum real

definition number_value :: "number \<Rightarrow> real" where
  "number_value x = (case x of IntNum k \<Rightarrow> real_of_int k | FloatNum r \<Rightarrow> r)"

record CountVectorizer =
  tokenizer :: Tokenizer
  vocab :: "Vocabulary option"
  max_doc_freq :: number
  min_freq :: int
  max_features :: "int option"
  binary :: bool

definition CountVectorizer_init ::
  "Tokenizer option \<Rightarrow> Vocabulary option \<Rightarrow> number \<Rightarrow> int \<Rightarrow> int option \<Rightarrow> bool
     \<Rightarrow> error + CountVectorizer" where
  "CountVectorizer_init tokenizer0 vocab0 max_doc_freq0 min_freq0 max_features0 binary0 =
     (if number_value max_doc_freq0 < 0 \<or> min_freq0 < 0 then Inl NegativeFreqError
      else if (case max_features0 of None \<Rightarrow> False | Some m \<Rightarrow> m \<le> 0)
      then Inl MaxFeaturesError
      else Inr \<lparr>tokenizer = (case tokenizer0 of
                              None \<Rightarrow> BaseTokenizer_init '' '' None
                            | Some t \<Rightarrow> t),
                vocab = vocab0, max_doc_freq = max_doc_freq0, min_freq = min_freq0,
                max_features = max_features0, binary = binary0\<rparr>)"

text \<open>\<^verbatim>\<open>_doc_freq\<close>.\<close>

definition doc_freq :: "csr_matrix \<Rightarrow> error + nat list" where
  "doc_freq X = bincount (X_indices X) (n_cols X)"

text \<open>
  \<^verbatim>\<open>del idx2tok[i]\<close> for each index of a list in turn; an index outside the list raises
  IndexError.
\<close>

fun del_all :: "'a list \<Rightarrow> nat list \<Rightarrow> error + 'a list" where
  "del_all l [] = Inr l"
| "del_all l (i # is) =
     (if i < length l then del_all (take i l @ drop (Suc i) l) is else Inl IndexError)"

text \<open>
  \<^verbatim>\<open>_limit_features\<close>, in two parts. \<open>prune_mask\<close> is the computation of the boolean
  array \<^verbatim>\<open>mask\<close>: the document-frequency test, then the cap of \<^verbatim>\<open>max_features\<close>,
  where \<^verbatim>\<open>term_indices[mask]\<close> raises IndexError unless the mask has one entry per
  column.
\<close>

definition where_true :: "bool list \<Rightarrow> nat list" where
  "where_true bs = filter (\<lambda>j. bs ! j) [0 ..< length bs]"

definition prune_mask :: "int option \<Rightarrow> csr_matrix \<Rightarrow> real \<Rightarrow> error + bool list" where
  "prune_mask max_features0 X max_doc_count =
     (case doc_freq X of
        Inl e \<Rightarrow> Inl e
      | Inr doc_frequencies \<Rightarrow>
          let mask1 = map (\<lambda>df. real df \<le> max_doc_count) doc_frequencies
          in case max_features0 of
               None \<Rightarrow> Inr mask1
             | Some m \<Rightarrow>
                 if m < int (length (where_true mask1))
                 then if length mask1 \<noteq> n_cols X then Inl IndexError
                      else Inr (map (\<lambda>j. j \<in> set (take (nat m) (where_true mask1)))
                                    [0 ..< length doc_frequencies])
                 else Inr mask1)"

text \<open>
  The vocabulary of the vectorizer is pruned in place, so the vectorizer is returned
  with the matrix. The error of an empty result is raised after the vocabulary has been
  pruned; a failed call returns the error only.
\<close>

definition limit_features ::
  "CountVectorizer \<Rightarrow> csr_matrix \<Rightarrow> real \<Rightarrow> error + CountVectorizer \<times> csr_matrix" where
  "limit_features self X max_doc_count =
     (if real (n_rows X) \<le> max_doc_count then Inr (self, X)
      else
        case prune_mask (max_features self) X max_doc_count of
          Inl e \<Rightarrow> Inl e
        | Inr mask2 \<Rightarrow>
            (case vocab self of
               None \<Rightarrow> Inl AttributeError
             | Some v \<Rightarrow>
                 (case del_all (idx2tok v)
                         (map (\<lambda>index. index + length SPECIAL_TOKENS)
                              (rev (where_true (map Not mask2)))) of
                    Inl e \<Rightarrow> Inl e
                  | Inr l \<Rightarrow>
                      let kept_indices = where_true mask2
                      in if length kept_indices = 0 then Inl NoTermsRemainError
                         else Inr (self\<lparr>vocab := Some (build_tok2idx (v\<lparr>idx2tok := l\<rparr>))\<rparr>,
                                   select_columns X kept_indices))))"

text \<open>
  \<^verbatim>\<open>_count\<close>: one \<^verbatim>\<open>Counter\<close> per document over the column numbers of its tokens that
  are keys of \<^verbatim>\<open>tok2idx\<close>. The subscript \<^verbatim>\<open>tok2idx[token]\<close> is reached for keys only, so
  the \<^verbatim>\<open>defaultdict\<close> never inserts a key and the vocabulary is read, not written. A vocabulary with fewer than four entries gives a negative
  number of columns, which the matrix constructor rejects.
\<close>

definition count_sequence :: "Vocabulary \<Rightarrow> string list \<Rightarrow> (int \<times> int) list" where
  "count_sequence v sequence =
     map (\<lambda>(idx, n). (idx, int n))
         (fold (\<lambda>token feature_counter.
                  case tok2idx v token of
                    None \<Rightarrow> feature_counter
                  | Some i \<Rightarrow> counter_incr (int i - int (length SPECIAL_TOKENS)) feature_counter)
               sequence [])"

definition count :: "CountVectorizer \<Rightarrow> string list list \<Rightarrow> error + csr_matrix" where
  "count self sequences =
     (case vocab self of
        None \<Rightarrow> Inl AttributeError
      | Some v \<Rightarrow>
          if vocab_size v < length SPECIAL_TOKENS then Inl NegativeDimensionError
          else Inr (sort_indices
                      \<lparr>n_rows = length sequences,
                       n_cols = vocab_size v - length SPECIAL_TOKENS,
                       rows = map (count_sequence v) sequences\<rparr>))"

definition fit_transform ::
  "CountVectorizer \<Rightarrow> string list
     \<Rightarrow> error + CountVectorizer \<times> string list list \<times> csr_matrix" where
  "fit_transform self raw_documents =
     (case batch_tokenize (tokenizer self) raw_documents of
        Inl e \<Rightarrow> Inl e
      | Inr sequences \<Rightarrow>
          let fixed_vocab = (vocab self \<noteq> None);
              self = (if vocab self = None
                      then self\<lparr>vocab := Some (from_sequences sequences None (min_freq self))\<rparr>
                      else self)
          in case count self sequences of
               Inl e \<Rightarrow> Inl e
             | Inr X \<Rightarrow>
                 let X = (if binary self then data_fill 1 X else X)
                 in if \<not> fixed_vocab
                    then
                      let n_docs = n_rows X;
                          max_doc_count = (case max_doc_freq self of
                                             IntNum k \<Rightarrow> real_of_int k
                                           | FloatNum r \<Rightarrow> r * real n_docs)
                      in case limit_features self X max_doc_count of
                           Inl e \<Rightarrow> Inl e
                         | Inr (self, X) \<Rightarrow> Inr (self, sequences, X)
                    else Inr (self, sequences, X))"

definition fit :: "CountVectorizer \<Rightarrow> string list \<Rightarrow> error + CountVectorizer" where
  "fit self raw_documents =
     (case fit_transform self raw_documents of
        Inl e \<Rightarrow> Inl e
      | Inr (self, sequences, X) \<Rightarrow> Inr self)"

definition transform ::
  "CountVectorizer \<Rightarrow> string list
     \<Rightarrow> error + CountVectorizer \<times> string list list \<times> csr_matrix" where
  "transform self raw_documents =
     (case batch_tokenize (tokenizer self) raw_documents of
        Inl e \<Rightarrow> Inl e
      | Inr sequences \<Rightarrow>
          (case count self sequences of
             Inl e \<Rightarrow> Inl e
           | Inr X \<Rightarrow> Inr (self, sequences, if binary self then data_fill 1 X else X)))"

section \<open>TextModule\<close>

text \<open>
  The fields of a \<^verbatim>\<open>TextModule\<close>. \<^verbatim>\<open>_id_text\<close> and the global id map are Python
  dictionaries: the first is a map, the second the list of its items (its keys are
  distinct), because the source takes its length and iterates over it. The fields that
  share a name with a field of \<^verbatim>\<open>CountVectorizer\<close> carry the prefix \<open>m_\<close>.
\<close>

record TextModule =
  id_text :: "(string \<rightharpoonup> string) option"
  m_tokenizer :: "Tokenizer option"
  m_vocab :: "Vocabulary option"
  max_vocab :: "int option"
  m_max_doc_freq :: number
  m_min_freq :: int
  sequences :: "int list list option"
  counts :: "csr_matrix option"

text \<open>\<^verbatim>\<open>{mapped_id: raw_id for raw_id, mapped_id in global_id_map.items()}\<close>.\<close>

definition mapped2raw :: "(string \<times> int) list \<Rightarrow> (int \<rightharpoonup> string)" where
  "mapped2raw global_id_map =
     fold (\<lambda>(raw_id, mapped_id) d. d(mapped_id \<mapsto> raw_id)) global_id_map Map.empty"

text \<open>
  The loop over \<^verbatim>\<open>range(len(global_id_map))\<close>: both subscripts raise KeyError on a
  missing key, and the text that was read is deleted from \<^verbatim>\<open>_id_text\<close>.
\<close>

fun order_texts ::
  "(int \<rightharpoonup> string) \<Rightarrow> (string \<rightharpoonup> string) \<Rightarrow> int list
     \<Rightarrow> error + string list \<times> (string \<rightharpoonup> string)" where
  "order_texts m2r d [] = Inr ([], d)"
| "order_texts m2r d (mapped_id # rest) =
     (case m2r mapped_id of
        None \<Rightarrow> Inl KeyError
      | Some raw_id \<Rightarrow>
          (case d raw_id of
             None \<Rightarrow> Inl KeyError
           | Some t \<Rightarrow>
               (case order_texts m2r (d(raw_id := None)) rest of
                  Inl e \<Rightarrow> Inl e
                | Inr (ts, d') \<Rightarrow> Inr (t # ts, d'))))"

definition build_text :: "TextModule \<Rightarrow> (string \<times> int) list \<Rightarrow> error + TextModule" where
  "build_text self global_id_map =
     (case id_text self of
        None \<Rightarrow> Inr self
      | Some d \<Rightarrow>
          (case order_texts (mapped2raw global_id_map) d
                  (map int [0 ..< length global_id_map]) of
             Inl e \<Rightarrow> Inl e
           | Inr (ordered_texts, d') \<Rightarrow>
               (case CountVectorizer_init (m_tokenizer self) (m_vocab self) (m_max_doc_freq self)
                       (m_min_freq self) (max_vocab self) False of
                  Inl e \<Rightarrow> Inl e
                | Inr vectorizer \<Rightarrow>
                    (case fit_transform vectorizer ordered_texts of
                       Inl e \<Rightarrow> Inl e
                     | Inr (vectorizer, seqs, X) \<Rightarrow>
                         (case vocab vectorizer of
                            None \<Rightarrow> Inl AttributeError
                          | Some v \<Rightarrow>
                              Inr (self\<lparr>id_text := None, m_vocab := Some v,
                                        sequences := Some (map (to_idx v) seqs),
                                        counts := Some X\<rparr>))))))"

text \<open>
  \<^verbatim>\<open>batch_seq\<close>. The matrix is a list of rows. \<^verbatim>\<open>max\<close> of no lengths raises
  ValueError, a negative width is rejected by \<^verbatim>\<open>np.zeros\<close>, and every
  \<^verbatim>\<open>self.sequences[mapped_id]\<close> is a Python list subscript.
\<close>

definition set_row :: "nat \<Rightarrow> int list \<Rightarrow> int list list \<Rightarrow> int list list" where
  "set_row i idx_seq seq_mat =
     fold (\<lambda>(j, idx) mat. mat[i := (mat ! i)[j := idx]]) (enumerate 0 idx_seq) seq_mat"

fun fill_rows ::
  "int list list \<Rightarrow> nat \<Rightarrow> (nat \<times> int) list \<Rightarrow> int list list \<Rightarrow> error + int list list" where
  "fill_rows seqs max_length [] seq_mat = Inr seq_mat"
| "fill_rows seqs max_length ((i, mapped_id) # rest) seq_mat =
     (case list_getitem seqs mapped_id of
        Inl e \<Rightarrow> Inl e
      | Inr s \<Rightarrow> fill_rows seqs max_length rest (set_row i (take max_length s) seq_mat))"

definition batch_seq :: "TextModule \<Rightarrow> int list \<Rightarrow> int option \<Rightarrow> error + int list list" where
  "batch_seq self batch_ids max_length =
     (case sequences self of
        None \<Rightarrow> Inl SequencesRequiredError
      | Some seqs \<Rightarrow>
          (case (case max_length of
                   Some m \<Rightarrow> Inr m
                 | None \<Rightarrow>
                     (case map_err (list_getitem seqs) batch_ids of
                        Inl e \<Rightarrow> Inl e
                      | Inr ss \<Rightarrow>
                          if ss = [] then Inl EmptyMaxError
                          else Inr (int (fold max (map length ss) 0)))) of
             Inl e \<Rightarrow> Inl e
           | Inr m \<Rightarrow>
               if m < 0 then Inl NegativeDimensionError
               else fill_rows seqs (nat m) (enumerate 0 batch_ids)
                      (replicate (length batch_ids) (replicate (nat m) 0))))"

text \<open>The corpus of the unit tests of \<^verbatim>\<open>CountVectorizer\<close>.\<close>

definition docs :: "string list" where
  "docs = [''a b c'', ''b c d d'', ''c b e c f'']"

section \<open>Properties of the vocabulary\<close>

subsection \<open>Reserved tokens and the reverse map\<close>

lemma special_distinct:
  "PAD \<noteq> UNK" "PAD \<noteq> BOS" "PAD \<noteq> EOS" "UNK \<noteq> BOS" "UNK \<noteq> EOS" "BOS \<noteq> EOS"
  "UNK \<noteq> PAD" "BOS \<noteq> PAD" "EOS \<noteq> PAD" "BOS \<noteq> UNK" "EOS \<noteq> UNK" "EOS \<noteq> BOS"
  by (simp_all add: PAD_def UNK_def BOS_def EOS_def)

lemma add_special_step_eq: "add_special_step tok l = tok # remove1 tok l"
  by (simp add: add_special_step_def remove1_idem)

lemma add_special_tokens_eq:
  "add_special_tokens l =
     SPECIAL_TOKENS @ remove1 PAD (remove1 UNK (remove1 BOS (remove1 EOS l)))"
  by (simp add: add_special_tokens_def add_special_step_eq SPECIAL_TOKENS_def special_distinct)

lemma remove1_distinct_filter: "distinct l \<Longrightarrow> remove1 x l = filter (\<lambda>y. y \<noteq> x) l"
  by (simp add: distinct_remove1_removeAll removeAll_filter_not_eq eq_commute)

lemma add_special_tokens_distinct:
  assumes "distinct l"
  shows "add_special_tokens l = SPECIAL_TOKENS @ filter (\<lambda>t. t \<notin> set SPECIAL_TOKENS) l"
proof -
  have "remove1 PAD (remove1 UNK (remove1 BOS (remove1 EOS l)))
        = filter (\<lambda>y. y \<noteq> PAD) (filter (\<lambda>y. y \<noteq> UNK) (filter (\<lambda>y. y \<noteq> BOS) (filter (\<lambda>y. y \<noteq> EOS) l)))"
    using assms by (simp add: remove1_distinct_filter)
  also have "\<dots> = filter (\<lambda>t. t \<notin> set SPECIAL_TOKENS) l"
    by (auto simp: SPECIAL_TOKENS_def intro: filter_cong)
  finally show ?thesis by (simp add: add_special_tokens_eq)
qed

lemma idx2tok_build [simp]: "idx2tok (build_tok2idx v) = idx2tok v"
  by (simp add: build_tok2idx_def)

lemma idx2tok_init [simp]: "idx2tok (Vocabulary_init l) = add_special_tokens l"
  by (simp add: Vocabulary_init_def)

lemma fold_enum_notin:
  "t \<notin> set xs \<Longrightarrow> fold (\<lambda>(idx, tok) d. d(tok \<mapsto> idx)) (enumerate n xs) m t = m t"
  by (induction xs arbitrary: n m) auto

lemma fold_enum_distinct:
  "distinct xs \<Longrightarrow> i < length xs \<Longrightarrow>
   fold (\<lambda>(idx, tok) d. d(tok \<mapsto> idx)) (enumerate n xs) m (xs ! i) = Some (n + i)"
proof (induction xs arbitrary: n m i)
  case Nil
  then show ?case by simp
next
  case (Cons x xs)
  show ?case
  proof (cases i)
    case 0
    then show ?thesis
      using Cons.prems fold_enum_notin [of x xs "Suc n" "m(x \<mapsto> n)"]
      by (simp add: fun_upd_same del: fun_upd_apply)
  next
    case (Suc j)
    then show ?thesis using Cons.prems Cons.IH [of j "Suc n" "m(x \<mapsto> n)"]
      by (simp del: fun_upd_apply)
  qed
qed

lemma tok2idx_build_nth:
  "distinct (idx2tok v) \<Longrightarrow> i < length (idx2tok v) \<Longrightarrow>
   tok2idx (build_tok2idx v) (idx2tok v ! i) = Some i"
  using fold_enum_distinct [of "idx2tok v" i 0 Map.empty] by (simp add: build_tok2idx_def)

lemma tok2idx_build_dom: "dom (tok2idx (build_tok2idx v)) = set (idx2tok v)"
proof -
  have "dom (fold (\<lambda>(idx, tok) d. d(tok \<mapsto> idx)) (enumerate n xs) m) = dom m \<union> set xs"
    for n xs and m :: "string \<rightharpoonup> nat"
    by (induction xs arbitrary: n m) auto
  then show ?thesis by (simp add: build_tok2idx_def)
qed

lemma map_err_Inr:
  "(\<And>x. x \<in> set xs \<Longrightarrow> f x = Inr (g x)) \<Longrightarrow> map_err f xs = Inr (map g xs)"
  by (induction xs) simp_all

lemma map_err_Inl:
  assumes "x \<in> set xs" "f x = Inl e"
    and "\<And>y e'. y \<in> set xs \<Longrightarrow> f y = Inl e' \<Longrightarrow> e' = e"
  shows "map_err f xs = Inl e"
  using assms
proof (induction xs)
  case Nil
  then show ?case by simp
next
  case (Cons a xs)
  show ?case
  proof (cases "f a")
    case (Inl e')
    then have "e' = e" using Cons.prems(3) [of a e'] by simp
    with Inl show ?thesis by simp
  next
    case (Inr y)
    then have "x \<in> set xs" using Cons.prems(1,2) by auto
    moreover have "e' = e" if "y \<in> set xs" "f y = Inl e'" for y e'
      using Cons.prems(3) [of y e'] that by simp
    ultimately have "map_err f xs = Inl e"
      using Cons.prems(2) by (intro Cons.IH)
    with Inr show ?thesis by simp
  qed
qed

lemma list_getitem_nonneg:
  "0 \<le> i \<Longrightarrow> i < int (length xs) \<Longrightarrow> list_getitem xs i = Inr (xs ! nat i)"
  by (simp add: list_getitem_def)

lemma list_getitem_neg:
  "i < 0 \<Longrightarrow> - int (length xs) \<le> i \<Longrightarrow> list_getitem xs i = Inr (xs ! nat (int (length xs) + i))"
  by (simp add: list_getitem_def)

lemma list_getitem_out:
  "int (length xs) \<le> i \<or> i < - int (length xs) \<Longrightarrow> list_getitem xs i = Inl IndexError"
  by (auto simp: list_getitem_def)

lemma list_getitem_Inl: "list_getitem xs i = Inl e \<Longrightarrow> e = IndexError"
  by (simp add: list_getitem_def split: if_splits)

lemmas voc_simps = Vocabulary_init_def build_tok2idx_def add_special_tokens_def add_special_step_def
  SPECIAL_TOKENS_def PAD_def UNK_def BOS_def EOS_def vocab_size_def

subsection \<open>Construction\<close>

text \<open>
  Claim C1, as amended. For every token list \<open>T\<close> the first four entries of
  \<open>idx2tok\<close> are \<open>PAD, UNK, BOS, EOS\<close> in that order; and when \<open>T\<close> has no duplicate
  entries, the vocabulary size is 4 plus the number of distinct non-reserved tokens of
  \<open>T\<close>, wherever reserved tokens occur in \<open>T\<close>.
\<close>

theorem Vocabulary_init_reserved_prefix_and_size:
  "take 4 (idx2tok (Vocabulary_init T)) = SPECIAL_TOKENS \<and>
   (distinct T \<longrightarrow> vocab_size (Vocabulary_init T) = 4 + card (set T - set SPECIAL_TOKENS))"
proof (intro conjI impI)
  show "take 4 (idx2tok (Vocabulary_init T)) = SPECIAL_TOKENS"
    by (simp add: add_special_tokens_eq SPECIAL_TOKENS_def)
next
  assume d: "distinct T"
  have "set (filter (\<lambda>t. t \<notin> set SPECIAL_TOKENS) T) = set T - set SPECIAL_TOKENS" by auto
  moreover have "distinct (filter (\<lambda>t. t \<notin> set SPECIAL_TOKENS) T)" using d by simp
  ultimately have "length (filter (\<lambda>t. t \<notin> set SPECIAL_TOKENS) T) = card (set T - set SPECIAL_TOKENS)"
    using distinct_card by metis
  then show "vocab_size (Vocabulary_init T) = 4 + card (set T - set SPECIAL_TOKENS)"
    using d by (simp add: vocab_size_def add_special_tokens_distinct SPECIAL_TOKENS_def)
qed

text \<open>The theorem at \<open>T = [b, <UNK>, a]\<close>.\<close>

theorem Vocabulary_init_reserved_prefix_and_size_witness:
  "distinct [''b'', ''<UNK>'', ''a''] \<and> take 4 (idx2tok (Vocabulary_init [''b'', ''<UNK>'', ''a''])) = SPECIAL_TOKENS \<and>
   vocab_size (Vocabulary_init [''b'', ''<UNK>'', ''a'']) = 6"
  using Vocabulary_init_reserved_prefix_and_size [of "[''b'', ''<UNK>'', ''a'']"]
  by (simp add: SPECIAL_TOKENS_def PAD_def UNK_def BOS_def EOS_def)

text \<open>
  Claim C1 as stated fails on a list with a duplicate: \<open>Vocabulary([a, a])\<close> has size 6,
  not \<open>4 + 1\<close>.
\<close>

theorem Vocabulary_init_size_counterexample:
  "vocab_size (Vocabulary_init [''a'', ''a'']) \<noteq> 4 + card (set [''a'', ''a''] - set SPECIAL_TOKENS)"
  by (simp add: vocab_size_def add_special_tokens_eq SPECIAL_TOKENS_def PAD_def UNK_def BOS_def EOS_def)

subsection \<open>Encoding and decoding\<close>

text \<open>
  Claim C7, as amended. For every vocabulary whose \<open>idx2tok\<close> has no duplicate entry and
  whose \<open>tok2idx\<close> is the map built from it, and every list of ids in \<open>[0, size)\<close>,
  \<open>to_text\<close> with \<open>sep = None\<close> returns a token list that \<open>to_idx\<close> maps back to the
  same ids.
\<close>

theorem to_idx_to_text_roundtrip:
  assumes "distinct (idx2tok v)"
    and "tok2idx v = tok2idx (build_tok2idx v)"
    and "\<forall>i \<in> set ids. 0 \<le> i \<and> i < int (vocab_size v)"
  shows "\<exists>toks. to_text v ids None = Inr (Tokens toks) \<and> to_idx v toks = ids"
proof -
  let ?toks = "map (\<lambda>i. idx2tok v ! nat i) ids"
  have "map_err (list_getitem (idx2tok v)) ids = Inr ?toks"
    using assms(3) by (intro map_err_Inr list_getitem_nonneg) (simp_all add: vocab_size_def)
  then have t: "to_text v ids None = Inr (Tokens ?toks)"
    by (simp add: to_text_def)
  have "to_idx v ?toks = ids"
    unfolding to_idx_def map_map
  proof (rule map_idI)
    fix i assume "i \<in> set ids"
    then have "0 \<le> i" "nat i < length (idx2tok v)"
      using assms(3) by (auto simp: vocab_size_def)
    then show "((\<lambda>tok. case tok2idx v tok of None \<Rightarrow> 1 | Some i \<Rightarrow> int i) \<circ> (\<lambda>i. idx2tok v ! nat i)) i = i"
      using tok2idx_build_nth [OF assms(1), of "nat i"] assms(2) by simp
  qed
  with t show ?thesis by blast
qed

text \<open>The theorem at the vocabulary built from \<open>[a, b]\<close> and the ids \<open>[5, 0, 4]\<close>.\<close>

theorem to_idx_to_text_roundtrip_witness:
  "to_text (Vocabulary_init [''a'', ''b'']) [5, 0, 4] None = Inr (Tokens [''b'', ''<PAD>'', ''a''])
   \<and> to_idx (Vocabulary_init [''a'', ''b'']) [''b'', ''<PAD>'', ''a''] = [5, 0, 4]"
proof -
  let ?v = "Vocabulary_init [''a'', ''b'']"
  have 1: "distinct (idx2tok ?v)" by (simp add: voc_simps)
  have 2: "tok2idx ?v = tok2idx (build_tok2idx ?v)" by (simp add: Vocabulary_init_def build_tok2idx_def)
  have 3: "\<forall>i \<in> set [5, 0, 4]. 0 \<le> i \<and> i < int (vocab_size ?v)" by (simp add: voc_simps)
  have 4: "to_text ?v [5, 0, 4] None = Inr (Tokens [''b'', ''<PAD>'', ''a''])"
    by (simp add: voc_simps to_text_def list_getitem_def)
  from to_idx_to_text_roundtrip [OF 1 2 3] 4 show ?thesis by auto
qed

text \<open>
  Claim C7 as stated fails on a vocabulary built from a list with a duplicate:
  in \<open>Vocabulary([a, a])\<close> the valid id 4 decodes to \<open>a\<close>, which encodes to 5.
\<close>

theorem to_idx_to_text_roundtrip_counterexample:
  "to_text (Vocabulary_init [''a'', ''a'']) [4] None = Inr (Tokens [''a''])
   \<and> to_idx (Vocabulary_init [''a'', ''a'']) [''a''] = [5]
   \<and> (4::int) < int (vocab_size (Vocabulary_init [''a'', ''a'']))"
  by (simp add: voc_simps to_text_def list_getitem_def to_idx_def)

text \<open>
  Claim C8, as amended. An id \<open>i\<close> with \<open>i \<ge> size\<close> or \<open>i < -size\<close> anywhere in the
  input makes \<open>to_text\<close> fail with IndexError, whatever the separator; when every id
  lies in \<open>[-size, size)\<close> the call succeeds, with or without a separator, an id in
  \<open>[0, size)\<close> decoding to the token at that position and a negative id \<open>i\<close> to the
  token at position \<open>size + i\<close>; the tokens are joined by the separator when one is
  given and returned as a list otherwise.
\<close>

theorem to_text_index_range:
  "((\<exists>i \<in> set ids. int (vocab_size v) \<le> i \<or> i < - int (vocab_size v)) \<longrightarrow>
      to_text v ids sep = Inl IndexError) \<and>
   ((\<forall>i \<in> set ids. - int (vocab_size v) \<le> i \<and> i < int (vocab_size v)) \<longrightarrow>
      to_text v ids sep =
        Inr (let toks = map (\<lambda>i. idx2tok v ! nat (if i < 0 then int (vocab_size v) + i else i)) ids
             in case sep of Some s \<Rightarrow> Joined (str_join s toks) | None \<Rightarrow> Tokens toks))"
proof (intro conjI impI)
  assume "\<exists>i \<in> set ids. int (vocab_size v) \<le> i \<or> i < - int (vocab_size v)"
  then obtain i where i: "i \<in> set ids" "int (vocab_size v) \<le> i \<or> i < - int (vocab_size v)"
    by blast
  then have "list_getitem (idx2tok v) i = Inl IndexError"
    by (intro list_getitem_out) (simp add: vocab_size_def)
  with i(1) have "map_err (list_getitem (idx2tok v)) ids = Inl IndexError"
    by (rule map_err_Inl) (rule list_getitem_Inl)
  then show "to_text v ids sep = Inl IndexError"
    by (simp add: to_text_def)
next
  assume r: "\<forall>i \<in> set ids. - int (vocab_size v) \<le> i \<and> i < int (vocab_size v)"
  have "list_getitem (idx2tok v) i
      = Inr (idx2tok v ! nat (if i < 0 then int (vocab_size v) + i else i))"
    if "i \<in> set ids" for i
    using r that by (cases "i < 0") (simp_all add: list_getitem_neg list_getitem_nonneg vocab_size_def)
  then have "map_err (list_getitem (idx2tok v)) ids
      = Inr (map (\<lambda>i. idx2tok v ! nat (if i < 0 then int (vocab_size v) + i else i)) ids)"
    by (rule map_err_Inr)
  then show "to_text v ids sep =
        Inr (let toks = map (\<lambda>i. idx2tok v ! nat (if i < 0 then int (vocab_size v) + i else i)) ids
             in case sep of Some s \<Rightarrow> Joined (str_join s toks) | None \<Rightarrow> Tokens toks)"
    by (simp add: to_text_def Let_def)
qed

text \<open>
  The theorem at the vocabulary built from \<open>[a]\<close>, on \<open>[0, 5]\<close> and on \<open>[4, -1, 0]\<close>, the
  latter without a separator and with the default separator.
\<close>

theorem to_text_index_range_witness:
  "to_text (Vocabulary_init [''a'']) [0, 5] (Some '' '') = Inl IndexError \<and>
   to_text (Vocabulary_init [''a'']) [4, -1, 0] None = Inr (Tokens [''a'', ''a'', ''<PAD>'']) \<and>
   to_text (Vocabulary_init [''a'']) [4, -1, 0] (Some '' '') = Inr (Joined ''a a <PAD>'')"
  using to_text_index_range [of "[0, 5]" "Vocabulary_init [''a'']" "Some '' ''"]
        to_text_index_range [of "[4, -1, 0]" "Vocabulary_init [''a'']" None]
        to_text_index_range [of "[4, -1, 0]" "Vocabulary_init [''a'']" "Some '' ''"]
  by (simp add: voc_simps)

text \<open>
  Claim C8 as stated fails on a negative id: \<open>-1\<close> is outside \<open>[0, size)\<close>, and
  \<open>to_text([-1])\<close> returns the last token instead of failing.
\<close>

theorem to_text_negative_index_counterexample:
  "\<not> (0 \<le> (-1::int)) \<and> to_text (Vocabulary_init [''a'']) [-1] None = Inr (Tokens [''a''])"
  by (simp add: voc_simps to_text_def list_getitem_def)

subsection \<open>The constructor and the caller's list\<close>

lemma add_special_step_obj_Some:
  "h a = Some l \<Longrightarrow> add_special_step_obj a tok h = h(a \<mapsto> add_special_step tok l)"
  by (auto simp: add_special_step_obj_def add_special_step_def list_insert0_def
      list_contains_def list_remove_def)

lemma fold_add_special_step_obj:
  "h a = Some l \<Longrightarrow> fold (add_special_step_obj a) toks h = h(a \<mapsto> fold add_special_step toks l)"
proof (induction toks arbitrary: h l)
  case Nil
  then show ?case by (simp add: map_upd_triv)
next
  case (Cons t toks)
  have "fold (add_special_step_obj a) (t # toks) h
        = fold (add_special_step_obj a) toks (h(a \<mapsto> add_special_step t l))"
    using Cons.prems by (simp add: add_special_step_obj_Some)
  also have "\<dots> = (h(a \<mapsto> add_special_step t l))(a \<mapsto> fold add_special_step toks (add_special_step t l))"
    by (rule Cons.IH) simp
  also have "\<dots> = h(a \<mapsto> fold add_special_step (t # toks) l)"
    by simp
  finally show ?case .
qed

lemma Vocabulary_init_obj_eq:
  assumes "h a = Some T"
  shows "Vocabulary_init_obj h a =
     (h(a \<mapsto> add_special_tokens T),
      \<lparr>idx2tok_ref = a, tok2idx_obj = tok2idx (Vocabulary_init T)\<rparr>)"
  using assms
  by (simp add: Vocabulary_init_obj_def add_special_tokens_obj_def fold_add_special_step_obj
      add_special_tokens_def Vocabulary_init_def build_tok2idx_def)

lemma remove_specials_prefix:
  "remove1 PAD (remove1 UNK (remove1 BOS (remove1 EOS (SPECIAL_TOKENS @ R)))) = R"
  by (simp add: SPECIAL_TOKENS_def special_distinct)

text \<open>
  A reserved token that occurs at most once is removed by \<^verbatim>\<open>remove\<close> from all its
  positions.
\<close>

lemma remove1_once_filter: "count_list l x \<le> 1 \<Longrightarrow> remove1 x l = filter (\<lambda>y. y \<noteq> x) l"
proof (induction l)
  case Nil
  then show ?case by simp
next
  case (Cons a l)
  show ?case
  proof (cases "a = x")
    case True
    with Cons.prems have "count_list l x = 0" by simp
    then have "x \<notin> set l" by (simp add: count_list_0_iff)
    then have "filter (\<lambda>y. y \<noteq> x) l = l" by (auto simp: filter_id_conv)
    with True show ?thesis by simp
  next
    case False
    with Cons show ?thesis by simp
  qed
qed

lemma count_list_filter: "count_list (filter P l) x = (if P x then count_list l x else 0)"
  by (induction l) auto

lemma add_special_tokens_once:
  assumes "\<forall>tok \<in> set SPECIAL_TOKENS. count_list l tok \<le> 1"
  shows "add_special_tokens l = SPECIAL_TOKENS @ filter (\<lambda>t. t \<notin> set SPECIAL_TOKENS) l"
proof -
  from assms have c: "count_list l PAD \<le> 1" "count_list l UNK \<le> 1" "count_list l BOS \<le> 1"
    "count_list l EOS \<le> 1"
    by (simp_all add: SPECIAL_TOKENS_def)
  have "remove1 EOS l = filter (\<lambda>y. y \<noteq> EOS) l"
    using c(4) by (rule remove1_once_filter)
  moreover have "remove1 BOS (filter (\<lambda>y. y \<noteq> EOS) l)
      = filter (\<lambda>y. y \<noteq> BOS) (filter (\<lambda>y. y \<noteq> EOS) l)"
    using c(3) by (intro remove1_once_filter) (simp add: count_list_filter)
  moreover have "remove1 UNK (filter (\<lambda>y. y \<noteq> BOS) (filter (\<lambda>y. y \<noteq> EOS) l))
      = filter (\<lambda>y. y \<noteq> UNK) (filter (\<lambda>y. y \<noteq> BOS) (filter (\<lambda>y. y \<noteq> EOS) l))"
    using c(2) by (intro remove1_once_filter) (simp add: count_list_filter)
  moreover have "remove1 PAD (filter (\<lambda>y. y \<noteq> UNK) (filter (\<lambda>y. y \<noteq> BOS) (filter (\<lambda>y. y \<noteq> EOS) l)))
      = filter (\<lambda>y. y \<noteq> PAD) (filter (\<lambda>y. y \<noteq> UNK) (filter (\<lambda>y. y \<noteq> BOS) (filter (\<lambda>y. y \<noteq> EOS) l)))"
    using c(1) by (intro remove1_once_filter) (simp add: count_list_filter)
  ultimately have "remove1 PAD (remove1 UNK (remove1 BOS (remove1 EOS l)))
      = filter (\<lambda>y. y \<noteq> PAD) (filter (\<lambda>y. y \<noteq> UNK) (filter (\<lambda>y. y \<noteq> BOS) (filter (\<lambda>y. y \<noteq> EOS) l)))"
    by simp
  also have "\<dots> = filter (\<lambda>t. t \<notin> set SPECIAL_TOKENS) l"
    by (auto simp: SPECIAL_TOKENS_def intro: filter_cong)
  finally show ?thesis by (simp add: add_special_tokens_eq)
qed

lemma add_special_tokens_same: "add_special_tokens T = T \<longleftrightarrow> take 4 T = SPECIAL_TOKENS"
proof
  assume "add_special_tokens T = T"
  then have "T = SPECIAL_TOKENS @ remove1 PAD (remove1 UNK (remove1 BOS (remove1 EOS T)))"
    by (simp add: add_special_tokens_eq)
  then have "take 4 T = take 4 (SPECIAL_TOKENS @ remove1 PAD (remove1 UNK (remove1 BOS (remove1 EOS T))))"
    by simp
  then show "take 4 T = SPECIAL_TOKENS" by (simp add: SPECIAL_TOKENS_def)
next
  assume "take 4 T = SPECIAL_TOKENS"
  then have "T = SPECIAL_TOKENS @ drop 4 T" by (metis append_take_drop_id)
  then have "add_special_tokens T = SPECIAL_TOKENS @ drop 4 T"
    using remove_specials_prefix [of "drop 4 T"] by (simp add: add_special_tokens_eq)
  with \<open>T = SPECIAL_TOKENS @ drop 4 T\<close> show "add_special_tokens T = T" by simp
qed

text \<open>
  Claim C10, as amended. The constructor stores the caller's list object itself as
  \<open>idx2tok\<close> and changes no other object; the contents of the list afterwards are the
  four reserved tokens followed by the input without the first occurrence of each
  reserved token, which is the input without its reserved tokens whenever no reserved
  token occurs in it twice; and the list keeps its original contents exactly when it
  already began with \<open>PAD, UNK, BOS, EOS\<close>.
\<close>

theorem Vocabulary_init_obj_aliases_input:
  assumes "h a = Some T"
  shows "case Vocabulary_init_obj h a of
           (h', v) \<Rightarrow>
             idx2tok_ref v = a \<and>
             (\<forall>b. b \<noteq> a \<longrightarrow> h' b = h b) \<and>
             h' a = Some (SPECIAL_TOKENS
                          @ remove1 PAD (remove1 UNK (remove1 BOS (remove1 EOS T)))) \<and>
             ((\<forall>tok \<in> set SPECIAL_TOKENS. count_list T tok \<le> 1) \<longrightarrow>
                h' a = Some (SPECIAL_TOKENS @ filter (\<lambda>t. t \<notin> set SPECIAL_TOKENS) T)) \<and>
             (h' a = Some T \<longleftrightarrow> take 4 T = SPECIAL_TOKENS)"
  using assms add_special_tokens_same [of T]
  by (simp add: Vocabulary_init_obj_eq add_special_tokens_once)
    (simp add: add_special_tokens_eq)

text \<open>The theorem on a store holding \<open>[a, <BOS>, a]\<close> at address 0.\<close>

theorem Vocabulary_init_obj_aliases_input_witness:
  "case Vocabulary_init_obj [0 \<mapsto> [''a'', ''<BOS>'', ''a'']] 0 of
     (h', v) \<Rightarrow> idx2tok_ref v = 0
        \<and> h' 0 = Some [''<PAD>'', ''<UNK>'', ''<BOS>'', ''<EOS>'', ''a'', ''a'']
        \<and> h' 0 \<noteq> Some [''a'', ''<BOS>'', ''a'']"
  using Vocabulary_init_obj_aliases_input [of "[0 \<mapsto> [''a'', ''<BOS>'', ''a'']]" 0 "[''a'', ''<BOS>'', ''a'']"]
  by (simp add: SPECIAL_TOKENS_def PAD_def UNK_def BOS_def EOS_def split: prod.splits)

text \<open>
  Claim C10 as stated fails on the list \<open>[<PAD>, <UNK>, <BOS>, <EOS>]\<close>: after the
  constructor the caller's list has its original contents.
\<close>

theorem Vocabulary_init_obj_keeps_contents_counterexample:
  "fst (Vocabulary_init_obj [0 \<mapsto> [''<PAD>'', ''<UNK>'', ''<BOS>'', ''<EOS>'']] 0) 0
     = Some [''<PAD>'', ''<UNK>'', ''<BOS>'', ''<EOS>'']"
  by (simp add: Vocabulary_init_obj_def add_special_tokens_obj_def add_special_step_obj_def
      list_insert0_def list_contains_def list_remove_def SPECIAL_TOKENS_def PAD_def UNK_def BOS_def EOS_def)

section \<open>Properties of the vectorizer\<close>

subsection \<open>The corpus of the unit tests\<close>

text \<open>
  Claim C2. On the corpus \<open>["a b c", "b c d d", "c b e c f"]\<close>, a vectorizer built with
  \<open>max_doc_freq = 2\<close>, \<open>min_freq = 1\<close> and \<open>max_features = 1\<close> is fitted without error,
  its vocabulary is then the reserved tokens followed by \<open>d\<close>, and \<open>transform\<close> on the
  same corpus returns the 3-by-1 matrix \<open>[[0], [2], [0]]\<close>. The second part follows the
  pruning: the freshly built vocabulary lists \<open>c, b, d, a, e, f\<close>, with document
  frequencies \<open>3, 3, 1, 1, 1, 1\<close>; the document-frequency test alone keeps
  \<open>d, a, e, f\<close>, and the cap keeps the first of them.
\<close>

theorem fit_then_transform_docs:
  "(case CountVectorizer_init None None (IntNum 2) 1 (Some 1) False of
      Inl e \<Rightarrow> False
    | Inr cv \<Rightarrow>
        (case fit cv docs of
           Inl e \<Rightarrow> False
         | Inr cv' \<Rightarrow>
             (case transform cv' docs of
                Inl e \<Rightarrow> False
              | Inr (cv'', seqs, X) \<Rightarrow>
                  map_option idx2tok (vocab cv') = Some (SPECIAL_TOKENS @ [''d''])
                  \<and> n_rows X = 3 \<and> n_cols X = 1 \<and> to_dense X = [[0], [2], [0]])))
   \<and> (case CountVectorizer_init None None (IntNum 2) 1 (Some 1) False of
      Inl e \<Rightarrow> False
    | Inr cv \<Rightarrow>
        (case batch_tokenize (tokenizer cv) docs of
           Inl e \<Rightarrow> False
         | Inr seqs \<Rightarrow>
             (let v0 = from_sequences seqs None (min_freq cv)
              in idx2tok v0 = SPECIAL_TOKENS @ [''c'', ''b'', ''d'', ''a'', ''e'', ''f'']
                 \<and> (case count (cv\<lparr>vocab := Some v0\<rparr>) seqs of
                        Inl e \<Rightarrow> False
                      | Inr X0 \<Rightarrow>
                          doc_freq X0 = Inr [3, 3, 1, 1, 1, 1]
                          \<and> prune_mask None X0 2 = Inr [False, False, True, True, True, True]
                          \<and> prune_mask (max_features cv) X0 2
                              = Inr [False, False, True, False, False, False]))))"
  by code_simp

text \<open>
  Claim C3 fails on the same corpus with the default \<open>max_doc_freq = 1.0\<close> and
  \<open>max_features = 1\<close>: \<open>max_doc_count\<close> is then the number of documents,
  \<open>_limit_features\<close> returns at its first test, and all six terms stay in the
  vocabulary and in the matrix, although six terms pass the document-frequency test
  and \<open>max_features\<close> is 1.
\<close>

theorem max_features_ignored_docs:
  "(case CountVectorizer_init None None (FloatNum 1) 1 (Some 1) False of
      Inl e \<Rightarrow> False
    | Inr cv \<Rightarrow>
        (case fit_transform cv docs of
           Inl e \<Rightarrow> False
         | Inr (cv', seqs, X) \<Rightarrow>
             map_option idx2tok (vocab cv')
               = Some (SPECIAL_TOKENS @ [''c'', ''b'', ''d'', ''a'', ''e'', ''f''])
             \<and> n_rows X = 3 \<and> n_cols X = 6
             \<and> to_dense X = [[1, 1, 0, 1, 0, 0], [1, 1, 2, 0, 0, 0], [2, 1, 0, 0, 1, 1]]))"
  by code_simp

text \<open>
  Claim C4 fails on the same corpus with the default \<open>max_doc_freq = 1.0\<close> and
  \<open>min_freq = 5\<close>: no token occurs five times, the vocabulary holds the reserved tokens
  only, and \<open>fit_transform\<close> returns a matrix with no column instead of raising the
  error.
\<close>

theorem empty_vocabulary_accepted_docs:
  "(case CountVectorizer_init None None (FloatNum 1) 5 None False of
      Inl e \<Rightarrow> False
    | Inr cv \<Rightarrow>
        (case fit_transform cv docs of
           Inl e \<Rightarrow> False
         | Inr (cv', seqs, X) \<Rightarrow>
             map_option idx2tok (vocab cv') = Some SPECIAL_TOKENS
             \<and> n_rows X = 3 \<and> n_cols X = 0 \<and> to_dense X = [[], [], []]))"
  by code_simp

text \<open>
  When \<open>max_doc_count\<close> is below the number of documents the test of the empty
  vocabulary is reached: with \<open>max_doc_freq = 2\<close> and \<open>min_freq = 3\<close> the terms \<open>c\<close> and
  \<open>b\<close> are the only ones built, both are pruned, and \<open>fit\<close> raises the error.
\<close>

lemma no_terms_remain_docs:
  "(case CountVectorizer_init None None (IntNum 2) 3 None False of
      Inl e \<Rightarrow> False
    | Inr cv \<Rightarrow> (case fit cv docs of Inl e \<Rightarrow> e = NoTermsRemainError | Inr cv' \<Rightarrow> False))"
  by code_simp

subsection \<open>Counting against a fixed vocabulary\<close>

text \<open>
  The counter of a document holds one entry per column number met, in first-seen
  order, with the number of tokens of the document that have this column; a token that
  is no key of \<open>tok2idx\<close> leaves the counter as it is.
\<close>

lemma map_err_length: "map_err f xs = Inr ys \<Longrightarrow> length ys = length xs"
  by (induction xs arbitrary: ys) (auto split: sum.splits)

lemma batch_tokenize_length: "batch_tokenize tk texts = Inr seqs \<Longrightarrow> length seqs = length texts"
  by (cases tk) (simp_all add: map_err_length)

lemma count_fold_filter:
  "fold (\<lambda>token feature_counter.
           case d token of None \<Rightarrow> feature_counter | Some i \<Rightarrow> counter_incr (g i) feature_counter)
        (filter (\<lambda>token. d token \<noteq> None) s) acc
   = fold (\<lambda>token feature_counter.
           case d token of None \<Rightarrow> feature_counter | Some i \<Rightarrow> counter_incr (g i) feature_counter)
        s acc"
  by (induction s arbitrary: acc) auto

lemma count_sequence_filter:
  "count_sequence v (filter (\<lambda>token. tok2idx v token \<noteq> None) s) = count_sequence v s"
  by (simp only: count_sequence_def count_fold_filter)

lemma counter_incr_map_of:
  "map_of (counter_incr x ys) c
     = (if c = x then Some (case map_of ys x of None \<Rightarrow> 1 | Some n \<Rightarrow> n + 1) else map_of ys c)"
  by (induction ys) auto

lemma counter_incr_keys:
  "map fst (counter_incr x ys) = (if x \<in> set (map fst ys) then map fst ys else map fst ys @ [x])"
  by (induction x ys rule: counter_incr.induct) (auto simp: image_iff)

lemma counter_incr_distinct:
  "distinct (map fst ys) \<Longrightarrow> distinct (map fst (counter_incr x ys))"
  by (simp add: counter_incr_keys)

lemma count_fold_distinct:
  "distinct (map fst acc) \<Longrightarrow>
   distinct (map fst (fold (\<lambda>token feature_counter.
       case d token of None \<Rightarrow> feature_counter | Some i \<Rightarrow> counter_incr (g i) feature_counter)
     s acc))"
  by (induction s arbitrary: acc) (auto simp: counter_incr_distinct split: option.splits)

lemma count_fold_map_of:
  "map_of (fold (\<lambda>token feature_counter.
       case d token of None \<Rightarrow> feature_counter | Some i \<Rightarrow> counter_incr (g i) feature_counter)
     s acc) c
   = (let n = length (filter (\<lambda>token. \<exists>k. d token = Some k \<and> g k = c) s)
      in case map_of acc c of
           None \<Rightarrow> if n = 0 then None else Some n
         | Some m \<Rightarrow> Some (m + n))"
proof (induction s arbitrary: acc)
  case Nil
  then show ?case by (simp split: option.splits)
next
  case (Cons t s)
  show ?case
  proof (cases "d t")
    case None
    then show ?thesis using Cons.IH [of acc] by (simp add: Let_def)
  next
    case (Some k)
    then show ?thesis
      using Cons.IH [of "counter_incr (g k) acc"]
      by (auto simp: Let_def counter_incr_map_of split: option.splits)
  qed
qed

lemma count_sequence_map_of:
  "map_of (count_sequence v s) c
     = (let n = length (filter (\<lambda>token. \<exists>k. tok2idx v token = Some k
                                   \<and> int k - int (length SPECIAL_TOKENS) = c) s)
        in if n = 0 then None else Some (int n))"
  using count_fold_map_of [where d = "tok2idx v" and g = "\<lambda>i. int i - int (length SPECIAL_TOKENS)"
      and s = s and acc = "[]" and c = c]
  by (simp add: count_sequence_def map_of_map Let_def)

lemma fst_comp_snd_map: "fst \<circ> (\<lambda>(j, x). (j, h x)) = fst"
  by (auto simp: fun_eq_iff)

lemma count_sequence_distinct: "distinct (map fst (count_sequence v s))"
proof -
  show ?thesis
    using count_fold_distinct [where d = "tok2idx v" and g = "\<lambda>i. int i - int (length SPECIAL_TOKENS)"
        and s = s and acc = "[]"]
    by (simp add: count_sequence_def fst_comp_snd_map)
qed

lemma sort_key_fst_distinct:
  "distinct (map fst xs) \<Longrightarrow> distinct (map fst (sort_key fst xs))"
  by (simp add: distinct_map)

lemma sort_key_fst_map_of:
  assumes "distinct (map fst xs)"
  shows "map_of (sort_key fst xs) = map_of xs"
proof -
  have "distinct (map fst (sort_key fst xs))" using assms by (rule sort_key_fst_distinct)
  moreover have "set (sort_key fst xs) = set xs" by simp
  ultimately show ?thesis using assms by (simp add: map_of_inject_set)
qed

lemma fill_map_of:
  "map_of (map (\<lambda>(j, x). (j, c)) xs) k = map_option (\<lambda>x. c) (map_of xs k)"
  by (induction xs) auto

lemma fill_keys: "map (fst \<circ> (\<lambda>(j, x). (j, c))) xs = map fst xs"
  by (induction xs) auto

text \<open>
  Claim C5. For a vectorizer holding a vocabulary \<open>V\<close> (of at least the four reserved
  entries) and documents that the tokenizer accepts, \<open>transform\<close> returns the vectorizer
  as it was, so \<open>idx2tok\<close> and \<open>tok2idx\<close> of \<open>V\<close> are unchanged, and a matrix with one row
  per document and one column per non-reserved entry of \<open>V\<close>: nothing is pruned. Row
  \<open>i\<close> has its column numbers in increasing order without repetition, and its entry at
  column \<open>c\<close> is the number of tokens of document \<open>i\<close> whose id in \<open>V\<close> is \<open>c + 4\<close> (1 in
  binary mode), absent when there is none. A token that is no key of \<open>tok2idx\<close> is
  therefore counted in no column, in particular not in that of \<open>UNK\<close>: the matrix is
  the one obtained from the documents with these tokens removed.
\<close>

theorem transform_fixed_vocabulary:
  assumes "vocab self = Some V"
    and "length SPECIAL_TOKENS \<le> vocab_size V"
    and "batch_tokenize (tokenizer self) raw_documents = Inr seqs"
  shows "\<exists>X. transform self raw_documents = Inr (self, seqs, X)
           \<and> n_rows X = length raw_documents
           \<and> n_cols X = vocab_size V - length SPECIAL_TOKENS
           \<and> length (rows X) = length seqs
           \<and> (\<forall>i < length seqs.
                sorted (map fst (rows X ! i)) \<and> distinct (map fst (rows X ! i))
                \<and> (\<forall>c. map_of (rows X ! i) c
                      = (let n = length (filter (\<lambda>token. \<exists>k. tok2idx V token = Some k
                                                    \<and> int k - int (length SPECIAL_TOKENS) = c)
                                                (seqs ! i))
                         in if n = 0 then None else Some (if binary self then 1 else int n))))
           \<and> (\<exists>X'. count self (map (filter (\<lambda>token. tok2idx V token \<noteq> None)) seqs) = Inr X'
                    \<and> X = (if binary self then data_fill 1 X' else X'))"
proof -
  let ?C = "sort_indices \<lparr>n_rows = length seqs,
                       n_cols = vocab_size V - length SPECIAL_TOKENS,
                       rows = map (count_sequence V) seqs\<rparr>"
  let ?R = "if binary self then data_fill 1 ?C else ?C"
  have c: "count self seqs = Inr ?C"
    using assms(1,2) by (simp add: count_def)
  have c': "count self (map (filter (\<lambda>token. tok2idx V token \<noteq> None)) seqs) = Inr ?C"
    using assms(1,2) by (simp add: count_def count_sequence_filter comp_def del: not_None_eq)
  have t: "transform self raw_documents = Inr (self, seqs, ?R)"
    using assms(3) c by (simp add: transform_def)
  have nr: "n_rows ?R = length raw_documents"
    using batch_tokenize_length [OF assms(3)] by (simp add: sort_indices_def data_fill_def)
  have nc: "n_cols ?R = vocab_size V - length SPECIAL_TOKENS"
    by (simp add: sort_indices_def data_fill_def)
  have lr: "length (rows ?R) = length seqs"
    by (simp add: sort_indices_def data_fill_def)
  have row: "sorted (map fst (rows ?R ! i)) \<and> distinct (map fst (rows ?R ! i))
      \<and> (\<forall>c. map_of (rows ?R ! i) c
            = (let n = length (filter (\<lambda>token. \<exists>k. tok2idx V token = Some k
                                          \<and> int k - int (length SPECIAL_TOKENS) = c) (seqs ! i))
               in if n = 0 then None else Some (if binary self then 1 else int n)))"
    if i: "i < length seqs" for i
  proof -
    let ?S = "sort_key fst (count_sequence V (seqs ! i))"
    have d: "distinct (map fst ?S)"
      using count_sequence_distinct by (rule sort_key_fst_distinct)
    have s: "sorted (map fst ?S)" by simp
    have m: "map_of ?S c = (let n = length (filter (\<lambda>token. \<exists>k. tok2idx V token = Some k
                                          \<and> int k - int (length SPECIAL_TOKENS) = c) (seqs ! i))
               in if n = 0 then None else Some (int n))" for c
      by (simp only: sort_key_fst_map_of [OF count_sequence_distinct] count_sequence_map_of)
    show ?thesis
    proof (cases "binary self")
      case True
      then have r: "rows ?R ! i = map (\<lambda>(j, x). (j, 1)) ?S"
        using i by (simp add: sort_indices_def data_fill_def)
      show ?thesis
        unfolding r using d s m True by (simp add: fill_keys fill_map_of Let_def)
    next
      case False
      then have r: "rows ?R ! i = ?S"
        using i by (simp add: sort_indices_def)
      show ?thesis
        unfolding r using d s m False by simp
    qed
  qed
  show ?thesis
    using t nr nc lr row c' by blast
qed

text \<open>
  The theorem on the vocabulary built from \<open>[b, c]\<close> and the documents \<open>"b z c b"\<close> and
  \<open>"q"\<close>: the tokens \<open>z\<close> and \<open>q\<close> are in no column.
\<close>

lemma tokenize_two_documents:
  "batch_tokenize (BaseTokenizer_init '' '' None) [''b z c b'', ''q'']
     = Inr [[''b'', ''z'', ''c'', ''b''], [''q'']]"
  by code_simp

theorem transform_fixed_vocabulary_witness:
  "\<exists>X. transform \<lparr>tokenizer = BaseTokenizer_init '' '' None, vocab = Some (Vocabulary_init [''b'', ''c'']),
                   max_doc_freq = FloatNum 1, min_freq = 1, max_features = None, binary = False\<rparr>
          [''b z c b'', ''q'']
        = Inr (\<lparr>tokenizer = BaseTokenizer_init '' '' None, vocab = Some (Vocabulary_init [''b'', ''c'']),
                 max_doc_freq = FloatNum 1, min_freq = 1, max_features = None, binary = False\<rparr>,
               [[''b'', ''z'', ''c'', ''b''], [''q'']], X)
      \<and> n_rows X = 2 \<and> n_cols X = 2 \<and> rows X = [[(0, 2), (1, 1)], []]"
  using transform_fixed_vocabulary [of
      "\<lparr>tokenizer = BaseTokenizer_init '' '' None, vocab = Some (Vocabulary_init [''b'', ''c'']),
        max_doc_freq = FloatNum 1, min_freq = 1, max_features = None, binary = False\<rparr>"
      "Vocabulary_init [''b'', ''c'']" "[''b z c b'', ''q'']" "[[''b'', ''z'', ''c'', ''b''], [''q'']]"]
    tokenize_two_documents
  by (auto simp add: voc_simps count_def count_sequence_def sort_indices_def)

section \<open>Properties of the text module\<close>

subsection \<open>Building the texts\<close>

text \<open>
  A successful run of the loop of \<^verbatim>\<open>_build_text\<close> reads one raw id per mapped id, all
  different (a text is deleted once read) and all keys of \<^verbatim>\<open>_id_text\<close>; the raw ids
  it reads are keys of the global id map.
\<close>

lemma order_texts_Inl: "order_texts m2r d ks = Inl e \<Longrightarrow> e = KeyError"
  by (induction ks arbitrary: d) (auto split: option.splits sum.splits)

lemma order_texts_Inr:
  "order_texts m2r d ks = Inr (ts, d') \<Longrightarrow>
   \<exists>rs. map m2r ks = map Some rs \<and> distinct rs \<and> set rs \<subseteq> dom d"
proof (induction ks arbitrary: d ts d')
  case Nil
  then show ?case by simp
next
  case (Cons k ks)
  from Cons.prems obtain r t ts' where r: "m2r k = Some r" and t: "d r = Some t"
    and rest: "order_texts m2r (d(r := None)) ks = Inr (ts', d')"
    by (auto split: option.splits sum.splits)
  from Cons.IH [OF rest] obtain rs where rs: "map m2r ks = map Some rs" "distinct rs"
    "set rs \<subseteq> dom (d(r := None))" by blast
  have "map m2r (k # ks) = map Some (r # rs)" using r rs(1) by simp
  moreover have "distinct (r # rs)" using rs(2,3) by auto
  moreover have "set (r # rs) \<subseteq> dom d" using rs(3) t by auto
  ultimately show ?case by blast
qed

lemma mapped2raw_fold:
  "fold (\<lambda>(raw_id, mapped_id) d. d(mapped_id \<mapsto> raw_id)) gm m0 k = Some r \<Longrightarrow>
   r \<in> fst ` set gm \<or> m0 k = Some r"
proof (induction gm arbitrary: m0)
  case Nil
  then show ?case by simp
next
  case (Cons p gm)
  obtain raw_id mapped_id where p: "p = (raw_id, mapped_id)" by (cases p)
  from Cons.prems have "fold (\<lambda>(raw_id, mapped_id) d. d(mapped_id \<mapsto> raw_id)) gm
      (m0(mapped_id \<mapsto> raw_id)) k = Some r"
    by (simp add: p del: fun_upd_apply)
  from Cons.IH [OF this] show ?case by (auto simp: p split: if_splits)
qed

lemma mapped2raw_ran: "mapped2raw gm k = Some r \<Longrightarrow> r \<in> fst ` set gm"
  using mapped2raw_fold [of gm Map.empty k r] by (simp add: mapped2raw_def)

lemma order_texts_all_present:
  assumes "order_texts (mapped2raw gm) d (map int [0 ..< length gm]) = Inr (ts, d')"
    and "distinct (map fst gm)"
  shows "fst ` set gm \<subseteq> dom d"
proof -
  from order_texts_Inr [OF assms(1)] obtain rs where
    rs: "map (mapped2raw gm) (map int [0 ..< length gm]) = map Some rs" "distinct rs" "set rs \<subseteq> dom d"
    by blast
  have len: "length rs = length gm"
    using arg_cong [OF rs(1), of length] by simp
  have "set rs \<subseteq> fst ` set gm"
  proof
    fix r assume "r \<in> set rs"
    then have "Some r \<in> set (map Some rs)" by simp
    then have "Some r \<in> set (map (mapped2raw gm) (map int [0 ..< length gm]))"
      by (simp only: rs(1))
    then obtain k where "mapped2raw gm k = Some r" by auto
    then show "r \<in> fst ` set gm" by (rule mapped2raw_ran)
  qed
  moreover have "card (set rs) = card (fst ` set gm)"
    using rs(2) assms(2) len distinct_card [of rs] distinct_card [of "map fst gm"] by simp
  ultimately have "set rs = fst ` set gm"
    by (intro card_subset_eq) simp_all
  with rs(3) show ?thesis by simp
qed

text \<open>
  Claim C6, as amended. When a raw-text dictionary was given, a raw id that is a key of
  the global id map but has no entry in the raw-text dictionary makes \<^verbatim>\<open>_build_text\<close>
  fail with KeyError: nothing is skipped.
\<close>

theorem build_text_missing_raw_id:
  assumes "id_text self = Some d"
    and "distinct (map fst global_id_map)"
    and "raw_id \<in> fst ` set global_id_map"
    and "d raw_id = None"
  shows "build_text self global_id_map = Inl KeyError"
proof (cases "order_texts (mapped2raw global_id_map) d (map int [0 ..< length global_id_map])")
  case (Inl e)
  then have "e = KeyError" by (rule order_texts_Inl)
  with Inl show ?thesis using assms(1) by (simp add: build_text_def)
next
  case (Inr p)
  obtain ts d' where "p = (ts, d')" by (cases p)
  with Inr have "fst ` set global_id_map \<subseteq> dom d"
    using order_texts_all_present assms(2) by blast
  with assms(3,4) have False by auto
  then show ?thesis ..
qed

text \<open>The theorem on the map \<open>{u1: 0, u2: 1}\<close> with a text for \<open>u1\<close> only.\<close>

theorem build_text_missing_raw_id_witness:
  "build_text \<lparr>id_text = Some [''u1'' \<mapsto> ''a b c''], m_tokenizer = None, m_vocab = None,
               max_vocab = None, m_max_doc_freq = FloatNum 1, m_min_freq = 1,
               sequences = None, counts = None\<rparr>
     [(''u1'', 0), (''u2'', 1)] = Inl KeyError"
  using build_text_missing_raw_id [of "\<lparr>id_text = Some [''u1'' \<mapsto> ''a b c''], m_tokenizer = None, m_vocab = None,
               max_vocab = None, m_max_doc_freq = FloatNum 1, m_min_freq = 1,
               sequences = None, counts = None\<rparr>" "[''u1'' \<mapsto> ''a b c'']" "[(''u1'', 0), (''u2'', 1)]" "''u2''"]
  by simp

text \<open>
  Claim C6 as stated fails on the map \<open>{u1: 0, u2: 1, u3: 2}\<close> with texts for \<open>u1\<close> and
  \<open>u3\<close> only: the build raises KeyError instead of skipping \<open>u2\<close>.
\<close>

theorem build_text_missing_raw_id_counterexample:
  "build_text \<lparr>id_text = Some [''u1'' \<mapsto> ''a b c'', ''u3'' \<mapsto> ''c b e c f''], m_tokenizer = None,
               m_vocab = None, max_vocab = Some 6, m_max_doc_freq = FloatNum 1, m_min_freq = 1,
               sequences = None, counts = None\<rparr>
     [(''u1'', 0), (''u2'', 1), (''u3'', 2)] = Inl KeyError"
  by (simp add: build_text_def mapped2raw_def)

text \<open>The only silent return of \<^verbatim>\<open>_build_text\<close>: no raw-text dictionary at all.\<close>

lemma build_text_no_texts: "id_text self = None \<Longrightarrow> build_text self global_id_map = Inr self"
  by (simp add: build_text_def)

subsection \<open>Batches of sequences\<close>

text \<open>
  The inner loop of \<^verbatim>\<open>batch_seq\<close> overwrites the first entries of a row, and the outer
  loop fills the rows of the zero matrix one after the other.
\<close>

lemma set_row_aux:
  "i < length mat \<Longrightarrow> k + length s \<le> length (mat ! i) \<Longrightarrow>
   fold (\<lambda>(j, idx) mat. mat[i := (mat ! i)[j := idx]]) (enumerate k s) mat
     = mat[i := take k (mat ! i) @ s @ drop (k + length s) (mat ! i)]"
proof (induction s arbitrary: k mat)
  case Nil
  then show ?case by simp
next
  case (Cons x s)
  let ?r = "mat ! i"
  let ?mat = "mat[i := ?r[k := x]]"
  have k: "k < length ?r" using Cons.prems(2) by simp
  have "fold (\<lambda>(j, idx) mat. mat[i := (mat ! i)[j := idx]]) (enumerate k (x # s)) mat
      = fold (\<lambda>(j, idx) mat. mat[i := (mat ! i)[j := idx]]) (enumerate (Suc k) s) ?mat"
    by simp
  also have "\<dots> = ?mat[i := take (Suc k) (?mat ! i) @ s @ drop (Suc k + length s) (?mat ! i)]"
    using Cons.prems by (intro Cons.IH) simp_all
  also have "?mat ! i = ?r[k := x]" using Cons.prems(1) by simp
  also have "take (Suc k) (?r[k := x]) = take k ?r @ [x]"
    using k by (simp add: take_Suc_conv_app_nth)
  also have "drop (Suc k + length s) (?r[k := x]) = drop (k + length (x # s)) ?r"
    by simp
  finally show ?case by simp
qed

lemma set_row_eq:
  "i < length mat \<Longrightarrow> length s \<le> length (mat ! i) \<Longrightarrow>
   set_row i s mat = mat[i := s @ drop (length s) (mat ! i)]"
  using set_row_aux [of i mat 0 s] by (simp add: set_row_def)

lemma fill_rows_eq:
  assumes "\<And>x. x \<in> set ids \<Longrightarrow> list_getitem seqs x = Inr (g x)"
    and "length mat = k + length ids"
    and "\<And>j. k \<le> j \<Longrightarrow> j < length mat \<Longrightarrow> mat ! j = replicate m 0"
  shows "fill_rows seqs m (enumerate k ids) mat
     = Inr (take k mat @ map (\<lambda>x. take m (g x) @ replicate (m - length (g x)) 0) ids)"
  using assms
proof (induction ids arbitrary: k mat)
  case Nil
  then show ?case by simp
next
  case (Cons x ids)
  let ?row = "take m (g x) @ replicate (m - length (g x)) 0"
  let ?mat = "mat[k := ?row]"
  have kl: "k < length mat" using Cons.prems(2) by simp
  have rk: "mat ! k = replicate m 0" using Cons.prems(3) [of k] kl by simp
  have "set_row k (take m (g x)) mat = ?mat"
    using kl rk by (simp add: set_row_eq min_def)
  moreover have "list_getitem seqs x = Inr (g x)" using Cons.prems(1) by simp
  ultimately have "fill_rows seqs m (enumerate k (x # ids)) mat
      = fill_rows seqs m (enumerate (Suc k) ids) ?mat"
    by simp
  also have "\<dots> = Inr (take (Suc k) ?mat @ map (\<lambda>x. take m (g x) @ replicate (m - length (g x)) 0) ids)"
  proof (rule Cons.IH)
    show "list_getitem seqs y = Inr (g y)" if "y \<in> set ids" for y
      using Cons.prems(1) [of y] that by simp
    show "length ?mat = Suc k + length ids" using Cons.prems(2) by simp
    show "?mat ! j = replicate m 0" if "Suc k \<le> j" "j < length ?mat" for j
      using Cons.prems(3) [of j] that by simp
  qed
  also have "take (Suc k) ?mat = take k mat @ [?row]"
    using kl by (simp add: take_Suc_conv_app_nth)
  finally show ?case by simp
qed

lemma fold_max_Max:
  "xs \<noteq> [] \<Longrightarrow> fold max xs (0::nat) = Max (set xs)"
proof -
  assume "xs \<noteq> []"
  have "fold max xs (0::nat) = Max (set (0 # xs))" by (simp only: Max.set_eq_fold)
  also have "\<dots> = Max (set xs)" using \<open>xs \<noteq> []\<close> by simp
  finally show ?thesis .
qed

text \<open>
  Claim C9. When the sequences are set, for every non-empty list of ids that are valid
  subscripts of the list of sequences, and a width \<open>max_length\<close> that is not negative
  when it is given, \<open>batch_seq\<close> returns a matrix with one row per id and \<open>width\<close>
  entries per row, where \<open>width\<close> is \<open>max_length\<close> or, by default, the length of the
  longest requested sequence; a row is the requested sequence cut to \<open>width\<close> entries
  and filled on the right with 0, the id of \<open>PAD\<close>.
\<close>

theorem batch_seq_shape_and_padding:
  assumes "sequences self = Some seqs"
    and "batch_ids \<noteq> []"
    and "\<forall>mapped_id \<in> set batch_ids.
           - int (length seqs) \<le> mapped_id \<and> mapped_id < int (length seqs)"
    and "case max_length of None \<Rightarrow> True | Some m \<Rightarrow> 0 \<le> m"
  shows "\<exists>width seq_mat.
           batch_seq self batch_ids max_length = Inr seq_mat
         \<and> (case max_length of
              Some m \<Rightarrow> width = nat m
            | None \<Rightarrow>
                width = Max (set (map (\<lambda>mapped_id. length (projr (list_getitem seqs mapped_id)))
                                      batch_ids)))
         \<and> length seq_mat = length batch_ids
         \<and> (\<forall>row \<in> set seq_mat. length row = width)
         \<and> seq_mat = map (\<lambda>mapped_id.
                            take width (projr (list_getitem seqs mapped_id))
                            @ replicate (width - length (projr (list_getitem seqs mapped_id))) 0)
                          batch_ids"
proof -
  let ?g = "\<lambda>x. projr (list_getitem seqs x)"
  have g: "list_getitem seqs x = Inr (?g x)" if "x \<in> set batch_ids" for x
    using assms(3) that by (auto simp: list_getitem_def)
  have me: "map_err (list_getitem seqs) batch_ids = Inr (map ?g batch_ids)"
    using g by (rule map_err_Inr)
  define w where "w = (case max_length of Some m \<Rightarrow> nat m
    | None \<Rightarrow> Max (set (map (\<lambda>x. length (?g x)) batch_ids)))"
  let ?M = "map (\<lambda>x. take w (?g x) @ replicate (w - length (?g x)) 0) batch_ids"
  have fr: "fill_rows seqs w (enumerate 0 batch_ids) (replicate (length batch_ids) (replicate w 0))
      = Inr ?M"
    using fill_rows_eq [of batch_ids seqs ?g "replicate (length batch_ids) (replicate w 0)" 0 w] g
    by simp
  have "batch_seq self batch_ids max_length = Inr ?M"
  proof (cases max_length)
    case None
    have "fold max (map length (map ?g batch_ids)) 0 = w"
      using assms(2) None by (simp add: fold_max_Max w_def comp_def)
    then show ?thesis
      using None assms(1,2) me fr by (simp add: batch_seq_def)
  next
    case (Some m)
    then show ?thesis
      using assms(1,4) fr by (simp add: batch_seq_def w_def)
  qed
  moreover have "case max_length of Some m \<Rightarrow> w = nat m
     | None \<Rightarrow> w = Max (set (map (\<lambda>x. length (?g x)) batch_ids))"
    by (simp add: w_def split: option.splits)
  moreover have "length ?M = length batch_ids" by simp
  moreover have "\<forall>row \<in> set ?M. length row = w" by auto
  ultimately show ?thesis by blast
qed

text \<open>
  The theorem on the sequences of the unit test, without a width and with width 4.
\<close>

theorem batch_seq_shape_and_padding_witness:
  "batch_seq \<lparr>id_text = None, m_tokenizer = None, m_vocab = None, max_vocab = Some 6,
              m_max_doc_freq = FloatNum 1, m_min_freq = 1,
              sequences = Some [[7, 5, 4], [5, 4, 6, 6], [4, 5, 8, 4, 9]], counts = None\<rparr>
     [1, 0] None = Inr [[5, 4, 6, 6], [7, 5, 4, 0]]
   \<and> batch_seq \<lparr>id_text = None, m_tokenizer = None, m_vocab = None, max_vocab = Some 6,
              m_max_doc_freq = FloatNum 1, m_min_freq = 1,
              sequences = Some [[7, 5, 4], [5, 4, 6, 6], [4, 5, 8, 4, 9]], counts = None\<rparr>
     [2, 0] (Some 4) = Inr [[4, 5, 8, 4], [7, 5, 4, 0]]"
  using batch_seq_shape_and_padding [of "\<lparr>id_text = None, m_tokenizer = None, m_vocab = None, max_vocab = Some 6,
              m_max_doc_freq = FloatNum 1, m_min_freq = 1,
              sequences = Some [[7, 5, 4], [5, 4, 6, 6], [4, 5, 8, 4, 9]], counts = None\<rparr>"
     "[[7, 5, 4], [5, 4, 6, 6], [4, 5, 8, 4, 9]]" "[1, 0]" None]
    batch_seq_shape_and_padding [of "\<lparr>id_text = None, m_tokenizer = None, m_vocab = None, max_vocab = Some 6,
              m_max_doc_freq = FloatNum 1, m_min_freq = 1,
              sequences = Some [[7, 5, 4], [5, 4, 6, 6], [4, 5, 8, 4, 9]], counts = None\<rparr>"
     "[[7, 5, 4], [5, 4, 6, 6], [4, 5, 8, 4, 9]]" "[2, 0]" "Some 4"]
  by (simp add: list_getitem_def)

end
